theory Spec2Isabelle
  imports
    Complex_Main
    "HOL-Library.AList"
    "HOL-Library.Char_ord"
    "HOL-Library.List_Lexorder"
begin

section \<open>The database wrapper of the exporter (db.py)\<close>

text \<open>
  The module defines the exceptions of the exporter, the value types that travel between a
  database and the metrics (\<open>QueryMetric\<close>, \<open>QueryResults\<close>, \<open>MetricResult\<close>,
  \<open>MetricResults\<close>), the class \<open>Query\<close> with its two construction checks and its method
  \<open>results\<close>, and the class \<open>DataBase\<close> with \<open>connect\<close>, \<open>close\<close> and \<open>execute\<close>.

  Python values are modelled as follows. A \<open>str\<close> is a \<open>string\<close>, compared and sorted
  character by character as Python does. A \<open>dict\<close> is an association list with pairwise
  distinct keys in insertion order: storing under a key that is present overwrites the value
  in place, storing under a new key appends. A raised exception is the left summand of the
  result. A cell of a result row has Python type \<open>Any\<close>: the three shapes below are enough,
  since \<open>results\<close> only moves cells around.
\<close>

subsection \<open>Exceptions\<close>

datatype error =
    DataBaseConnectError string bool
  | InvalidResultCount int int
  | InvalidResultColumnNames "string list" "string list"
  | InvalidQueryParameters string
  | InvalidQuerySchedule string string
  | KeyError string
  | Raised string

text \<open>
  The arguments are those of the \<open>__init__\<close> methods, in their order:
  \<open>InvalidResultCount expected got\<close>, \<open>InvalidResultColumnNames expected got\<close>,
  \<open>InvalidQueryParameters query_name\<close>, \<open>InvalidQuerySchedule query_name message\<close>.
  \<open>DataBaseConnectError message fatal\<close> has those of \<open>DataBaseError\<close>. \<open>KeyError\<close> is
  what a subscript of a \<open>dict\<close> raises on a missing key, and \<open>Raised\<close> stands for an
  exception of a collaborator (named by its class) that the module lets through.
\<close>

fun join :: "string \<Rightarrow> string list \<Rightarrow> string" where
  "join sep [] = []"
| "join sep [x] = x"
| "join sep (x # y # ys) = x @ sep @ join sep (y # ys)"

definition names_str :: "string list \<Rightarrow> string" where
  "names_str names = (let names_list = join '', '' names in ''('' @ names_list @ '')'')"

definition column_names_message :: "string list \<Rightarrow> string list \<Rightarrow> string" where
  "column_names_message expected got =
     ''Wrong column names from query: '' @
     ''expected '' @ names_str expected @ '', got '' @ names_str got"

subsection \<open>Values\<close>

datatype cell = CInt int | CStr string | CNone

type_synonym ('k, 'v) dict = "('k \<times> 'v) list"

record QueryMetric =
  metric_name :: string
  metric_labels :: "string list"

record 'f QueryResults =
  qr_keys :: "string list"
  qr_rows :: "cell list list"
  qr_latency :: "'f option"

record MetricResult =
  mr_metric :: string
  mr_value :: cell
  mr_labels :: "(string, cell) dict"

record 'f MetricResults =
  results_of :: "MetricResult list"
  latency_of :: "'f option"

text \<open>
  The type parameter \<open>'f\<close> is Python's \<open>float\<close>: the module never computes with a latency
  inside \<open>results\<close>, it only hands it on. The fields are those of the named tuples
  (\<open>name\<close>, \<open>labels\<close>; \<open>keys\<close>, \<open>rows\<close>, \<open>latency\<close>; \<open>metric\<close>, \<open>value\<close>, \<open>labels\<close>;
  \<open>results\<close>, \<open>latency\<close>), prefixed because several tuples share a field name.
\<close>

record 'f Query =
  name :: string
  include_databases :: "string + string list"
  exclude_databases :: "string list"
  metrics :: "QueryMetric list"
  sql :: string
  parameters :: "(string, cell) dict"
  timeout :: "(int + 'f) option"
  interval :: "int option"
  schedule :: "string option"

subsection \<open>Dictionaries\<close>

definition dict_of :: "('k \<times> 'v) list \<Rightarrow> ('k, 'v) dict" where
  "dict_of kvs = fold (\<lambda>(k, v) d. AList.update k v d) kvs []"

definition subscript :: "(string, 'v) dict \<Rightarrow> string \<Rightarrow> error + 'v" where
  "subscript d k = (case map_of d k of None \<Rightarrow> Inl (KeyError k) | Some v \<Rightarrow> Inr v)"

subsection \<open>Query.labels and Query.results\<close>

text \<open>
  \<open>labels\<close> chains the label names of all metrics into a frozenset. \<open>sorted\<close> of a set
  is the sorted list of its distinct elements, here computed from a list that enumerates the
  set; \<open>expected_keys\<close> is \<open>sorted(set(metrics) | labels)\<close>.
\<close>

definition labels :: "('f, 'a) Query_scheme \<Rightarrow> string set" where
  "labels q = set (concat (map metric_labels (metrics q)))"

definition sorted_of_set :: "string list \<Rightarrow> string list" where
  "sorted_of_set xs = sort (remdups xs)"

definition expected_keys :: "('f, 'a) Query_scheme \<Rightarrow> string list" where
  "expected_keys q =
     sorted_of_set (map metric_name (metrics q) @ concat (map metric_labels (metrics q)))"

text \<open>The dict comprehension \<open>{label: values[label] for label in metric.labels}\<close>.\<close>

fun labels_dict ::
  "(string, cell) dict \<Rightarrow> string list \<Rightarrow> (string, cell) dict \<Rightarrow> error + (string, cell) dict"
where
  "labels_dict values [] acc = Inr acc"
| "labels_dict values (label # ls) acc =
     (case subscript values label of
        Inl e \<Rightarrow> Inl e
      | Inr v \<Rightarrow> labels_dict values ls (AList.update label v acc))"

text \<open>The inner loop \<open>for metric in self.metrics\<close>, appending to \<open>results\<close>.\<close>

fun metrics_loop ::
  "(string, cell) dict \<Rightarrow> QueryMetric list \<Rightarrow> MetricResult list \<Rightarrow> error + MetricResult list"
where
  "metrics_loop values [] results = Inr results"
| "metrics_loop values (metric # ms) results =
     (case subscript values (metric_name metric) of
        Inl e \<Rightarrow> Inl e
      | Inr v \<Rightarrow>
          (case labels_dict values (metric_labels metric) [] of
             Inl e \<Rightarrow> Inl e
           | Inr ls \<Rightarrow>
               metrics_loop values ms
                 (results @ [\<lparr>mr_metric = metric_name metric, mr_value = v, mr_labels = ls\<rparr>])))"

text \<open>The outer loop \<open>for row in query_results.rows\<close>.\<close>

fun rows_loop ::
  "string list \<Rightarrow> QueryMetric list \<Rightarrow> cell list list \<Rightarrow> MetricResult list
     \<Rightarrow> error + MetricResult list"
where
  "rows_loop keys ms [] results = Inr results"
| "rows_loop keys ms (row # rows) results =
     (case metrics_loop (dict_of (zip keys row)) ms results of
        Inl e \<Rightarrow> Inl e
      | Inr results' \<Rightarrow> rows_loop keys ms rows results')"

definition results :: "('f, 'a) Query_scheme \<Rightarrow> 'f QueryResults \<Rightarrow> error + 'f MetricResults" where
  "results q query_results =
     (if qr_rows query_results = [] then Inr \<lparr>results_of = [], latency_of = None\<rparr>
      else
        let result_keys = sort (qr_keys query_results);
            expected = expected_keys q
        in if int (length expected) \<noteq> int (length result_keys)
           then Inl (InvalidResultCount (int (length expected)) (int (length result_keys)))
           else if result_keys \<noteq> expected
           then Inl (InvalidResultColumnNames result_keys expected)
           else
             (case rows_loop (qr_keys query_results) (metrics q) (qr_rows query_results) [] of
                Inl e \<Rightarrow> Inl e
              | Inr rs \<Rightarrow> Inr \<lparr>results_of = rs, latency_of = qr_latency query_results\<rparr>))"

subsection \<open>Construction of a Query\<close>

text \<open>
  Python's truth value of an \<open>Union[int, None]\<close> and of an \<open>Union[str, None]\<close>:
  \<open>None\<close>, \<open>0\<close> and the empty string are false.
\<close>

definition truthy_int :: "int option \<Rightarrow> bool" where
  "truthy_int x = (case x of None \<Rightarrow> False | Some n \<Rightarrow> n \<noteq> 0)"

definition truthy_str :: "string option \<Rightarrow> bool" where
  "truthy_str x = (case x of None \<Rightarrow> False | Some s \<Rightarrow> s \<noteq> [])"

definition check_periodic :: "('f, 'a) Query_scheme \<Rightarrow> bool" where
  "check_periodic q = (truthy_int (interval q) \<or> truthy_str (schedule q))"

text \<open>
  Two collaborators of the construction are libraries outside the repository, and are
  parameters here: \<open>is_valid\<close> is \<open>croniter.is_valid\<close>, and \<open>sql_params\<close> gives the names
  of the bind parameters that \<open>text(sql).compile().params\<close> holds.
\<close>

definition check_schedule :: "(string \<Rightarrow> bool) \<Rightarrow> ('f, 'a) Query_scheme \<Rightarrow> error + unit" where
  "check_schedule is_valid q =
     (if truthy_int (interval q) \<and> truthy_str (schedule q)
      then Inl (InvalidQuerySchedule (name q) ''both interval and schedule specified'')
      else
        (case schedule q of
           None \<Rightarrow> Inr ()
         | Some s \<Rightarrow>
             if s \<noteq> [] \<and> \<not> is_valid s
             then Inl (InvalidQuerySchedule (name q) ''invalid schedule format'')
             else Inr ()))"

definition check_query_parameters ::
  "(string \<Rightarrow> string list) \<Rightarrow> ('f, 'a) Query_scheme \<Rightarrow> error + unit"
where
  "check_query_parameters sql_params q =
     (let query_params = set (sql_params (sql q))
      in if set (map fst (parameters q)) \<noteq> query_params
         then Inl (InvalidQueryParameters (name q))
         else Inr ())"

text \<open>
  The assignments of \<open>__init__\<close>; \<open>parameters or {}\<close> turns \<open>None\<close> (and an empty dict)
  into the empty dict.
\<close>

definition new_query ::
  "string \<Rightarrow> string + string list \<Rightarrow> string list \<Rightarrow> QueryMetric list \<Rightarrow> string
     \<Rightarrow> (string, cell) dict option \<Rightarrow> (int + 'f) option \<Rightarrow> int option \<Rightarrow> string option
     \<Rightarrow> 'f Query"
where
  "new_query n incl excl ms sq params tmo intv sched =
     \<lparr>name = n, include_databases = incl, exclude_databases = excl, metrics = ms, sql = sq,
      parameters = (case params of None \<Rightarrow> [] | Some d \<Rightarrow> d),
      timeout = tmo, interval = intv, schedule = sched\<rparr>"

definition Query_init ::
  "(string \<Rightarrow> bool) \<Rightarrow> (string \<Rightarrow> string list)
     \<Rightarrow> string \<Rightarrow> string + string list \<Rightarrow> string list \<Rightarrow> QueryMetric list \<Rightarrow> string
     \<Rightarrow> (string, cell) dict option \<Rightarrow> (int + 'f) option \<Rightarrow> int option \<Rightarrow> string option
     \<Rightarrow> error + 'f Query"
where
  "Query_init is_valid sql_params n incl excl ms sq params tmo intv sched =
     (let self = new_query n incl excl ms sq params tmo intv sched
      in case check_schedule is_valid self of
           Inl e \<Rightarrow> Inl e
         | Inr u \<Rightarrow>
             (case check_query_parameters sql_params self of
                Inl e \<Rightarrow> Inl e
              | Inr u' \<Rightarrow> Inr self))"

subsection \<open>The class DataBase\<close>

text \<open>
  The engine and the connection it hands out are collaborators. What the manager asks of
  them is recorded in \<open>calls\<close>, in order; \<open>ConnExecute\<close> is the submission of a statement
  to a connection, which the collaborator offers. What they answer is given by an \<open>engine\<close>:
  each answer may depend on everything asked so far. \<open>engine_connect\<close> answers with a
  connection or with the class name of the exception it raises; \<open>sync_detach\<close> and
  \<open>conn_close\<close> answer \<open>None\<close> when they return and the class name of the exception
  when they raise.

  The lock of \<open>connect\<close> and \<open>close\<close> orders concurrent callers; the model runs one call
  after the other, where the lock is always free. An object exists once
  \<open>create_db_engine\<close> has returned an engine in \<open>__init__\<close>.
\<close>

type_synonym connection = nat

datatype call =
    EngineConnect
  | SyncDetach connection
  | ConnClose connection
  | ConnExecute connection string

record engine =
  engine_connect :: "call list \<Rightarrow> string + connection"
  sync_detach :: "call list \<Rightarrow> connection \<Rightarrow> string option"
  conn_close :: "call list \<Rightarrow> connection \<Rightarrow> string option"

record DataBase =
  config_name :: string
  conn :: "connection option"
  pending_queries :: int
  logged :: "string list"
  calls :: "call list"

definition DataBase_init :: "string \<Rightarrow> DataBase" where
  "DataBase_init n = \<lparr>config_name = n, conn = None, pending_queries = 0, logged = [], calls = []\<rparr>"

definition connected_db :: "DataBase \<Rightarrow> bool" where
  "connected_db self = (conn self \<noteq> None)"

definition quoted :: "string \<Rightarrow> string" where
  "quoted s = [CHR 0x22] @ s @ [CHR 0x22]"

definition connect :: "engine \<Rightarrow> DataBase \<Rightarrow> (error + unit) \<times> DataBase" where
  "connect eng self =
     (if connected_db self then (Inr (), self)
      else
        (let asked = self\<lparr>calls := calls self @ [EngineConnect]\<rparr>
         in (case engine_connect eng (calls self) of
               Inl cls \<Rightarrow> (Inl (DataBaseConnectError cls False), asked)
             | Inr c \<Rightarrow>
                 (Inr (),
                  asked\<lparr>conn := Some c,
                    logged := logged asked @
                      [''connected to database '' @ quoted (config_name self)]\<rparr>))))"

definition close :: "engine \<Rightarrow> DataBase \<Rightarrow> (error + unit) \<times> DataBase" where
  "close eng self =
     (case conn self of
        None \<Rightarrow> (Inr (), self)
      | Some c \<Rightarrow>
          (let detaching = self\<lparr>calls := calls self @ [SyncDetach c]\<rparr>
           in (case sync_detach eng (calls self) c of
                 Some cls \<Rightarrow> (Inl (Raised cls), detaching)
               | None \<Rightarrow>
                   (let closing = detaching\<lparr>calls := calls detaching @ [ConnClose c]\<rparr>
                    in (case conn_close eng (calls detaching) c of
                          Some cls \<Rightarrow> (Inl (Raised cls), closing)
                        | None \<Rightarrow>
                            (Inr (),
                             closing\<lparr>conn := None, pending_queries := 0,
                               logged := logged closing @
                                 [''disconnected from database '' @
                                  quoted (config_name self)]\<rparr>))))))"

definition execute :: "engine \<Rightarrow> DataBase \<Rightarrow> (error + unit) \<times> DataBase" where
  "execute eng self = connect eng self"

text \<open>
  A caller that goes on after a call, whether it returned or raised, goes on with the
  object as the call left it.
\<close>

datatype op = Connect | Close | Execute

fun step :: "engine \<Rightarrow> op \<Rightarrow> DataBase \<Rightarrow> DataBase" where
  "step eng Connect self = snd (connect eng self)"
| "step eng Close self = snd (close eng self)"
| "step eng Execute self = snd (execute eng self)"

definition run :: "engine \<Rightarrow> op list \<Rightarrow> DataBase \<Rightarrow> DataBase" where
  "run eng ops self = fold (step eng) ops self"

subsection \<open>Inputs of the examples\<close>

definition m1_query :: "real Query" where
  "m1_query =
     new_query ''q'' (Inr []) [] [\<lparr>metric_name = ''m1'', metric_labels = [''l1'']\<rparr>]
       ''SELECT 1'' None None None None"

definition five_fields :: "string \<Rightarrow> bool" where
  "five_fields s = (s = ''* * * * *'')"

definition never_valid :: "string \<Rightarrow> bool" where
  "never_valid s = False"

definition colon_names :: "string \<Rightarrow> string list" where
  "colon_names s = (if s = ''SELECT :a'' then [''a''] else [])"

definition good_engine :: engine where
  "good_engine =
     \<lparr>engine_connect = (\<lambda>asked. Inr (length asked)),
      sync_detach = (\<lambda>asked c. None),
      conn_close = (\<lambda>asked c. None)\<rparr>"

definition refusing_engine :: engine where
  "refusing_engine = good_engine\<lparr>engine_connect := (\<lambda>asked. Inl ''OperationalError'')\<rparr>"

definition stuck_engine :: engine where
  "stuck_engine = good_engine\<lparr>conn_close := (\<lambda>asked c. Some ''OperationalError'')\<rparr>"

section \<open>Properties of Query.results\<close>

lemma expected_keys_sorted_set:
  "expected_keys q = sorted_list_of_set (set (map metric_name (metrics q)) \<union> labels q)"
proof -
  have "set (map metric_name (metrics q)) \<union> labels q
          = set (map metric_name (metrics q) @ concat (map metric_labels (metrics q)))"
    by (simp add: labels_def)
  then show ?thesis
    by (simp only: expected_keys_def sorted_of_set_def sorted_list_of_set_sort_remdups)
qed

lemma length_expected_keys:
  "length (expected_keys q) = card (set (map metric_name (metrics q)) \<union> labels q)"
  by (simp add: expected_keys_def sorted_of_set_def labels_def length_remdups_card_conv)

text \<open>
  C1. On a result set without rows, \<open>results\<close> returns at once, before it looks at the
  columns, and its result list is empty. The latency is not handed on: the early return
  builds \<open>MetricResults([])\<close>, whose latency is the default \<open>None\<close>, whereas the return at
  the end of the method passes \<open>latency=query_results.latency\<close>. For the query with metric
  \<open>m1\<close> and label \<open>l1\<close> and a result set of no rows measured at a quarter of a second, the
  latency of the result is \<open>None\<close>.
\<close>

theorem empty_rows_latency_dropped:
  "results m1_query \<lparr>qr_keys = [''m1'', ''l1''], qr_rows = [], qr_latency = Some (1 / 4)\<rparr>
     = Inr \<lparr>results_of = [], latency_of = None\<rparr>"
  by (simp add: results_def)

text \<open>
  C2. When the sorted columns of the result set are as many as the expected ones and differ
  from them, \<open>results\<close> raises \<open>InvalidResultColumnNames\<close>, with the two arguments in the
  order \<open>(result_keys, expected_keys)\<close>, while the exception takes \<open>(expected, got)\<close>: the
  columns of the result set arrive as \<open>expected\<close> and the expected names as \<open>got\<close>. For
  the query with metric \<open>m1\<close> and label \<open>l1\<close> and the columns \<open>(m1, wrong_label)\<close> the
  message reads "expected (m1, wrong_label), got (l1, m1)".
\<close>

theorem column_names_arguments_swapped:
  "results m1_query
     \<lparr>qr_keys = [''m1'', ''wrong_label''], qr_rows = [[CInt 42, CStr ''a'']], qr_latency = None\<rparr>
     = Inl (InvalidResultColumnNames [''m1'', ''wrong_label''] [''l1'', ''m1''])
   \<and> expected_keys m1_query = [''l1'', ''m1'']
   \<and> column_names_message [''m1'', ''wrong_label''] [''l1'', ''m1'']
       = ''Wrong column names from query: expected (m1, wrong_label), got (l1, m1)''"
  by (simp add: results_def m1_query_def new_query_def expected_keys_def sorted_of_set_def
      column_names_message_def names_str_def)

text \<open>
  C3. On a result set with rows, when the number of distinct expected column names (the
  metric names together with the label names) is not the number of columns of the result
  set, \<open>results\<close> raises \<open>InvalidResultCount\<close> with the expected number and the number
  got. Nothing is assumed about the names, which are compared only afterwards. The witness is
  the query with metric \<open>m1\<close> and label \<open>l1\<close> on the single column \<open>(m1,)\<close>: expected 2,
  got 1.
\<close>

theorem invalid_result_count_raised:
  assumes "qr_rows qr \<noteq> []"
    and "card (set (map metric_name (metrics q)) \<union> labels q) \<noteq> length (qr_keys qr)"
  shows "results q qr =
           Inl (InvalidResultCount
                  (int (card (set (map metric_name (metrics q)) \<union> labels q)))
                  (int (length (qr_keys qr))))"
  using assms by (simp add: results_def Let_def length_expected_keys)

theorem invalid_result_count_raised_witness:
  "qr_rows \<lparr>qr_keys = [''m1''], qr_rows = [[CInt 42]], qr_latency = None\<rparr> \<noteq> []
   \<and> card (set (map metric_name (metrics m1_query)) \<union> labels m1_query)
       \<noteq> length (qr_keys \<lparr>qr_keys = [''m1''], qr_rows = [[CInt 42]], qr_latency = None\<rparr>)
   \<and> results m1_query \<lparr>qr_keys = [''m1''], qr_rows = [[CInt 42]], qr_latency = None\<rparr>
       = Inl (InvalidResultCount 2 1)"
proof -
  let ?qr = "\<lparr>qr_keys = [''m1''], qr_rows = [[CInt 42]], qr_latency = None :: real option\<rparr>"
  have rows: "qr_rows ?qr \<noteq> []" by simp
  have count: "card (set (map metric_name (metrics m1_query)) \<union> labels m1_query) = 2"
    by (simp add: m1_query_def new_query_def labels_def)
  have differ: "card (set (map metric_name (metrics m1_query)) \<union> labels m1_query)
                  \<noteq> length (qr_keys ?qr)"
    unfolding count by simp
  show ?thesis
    using invalid_result_count_raised [OF rows differ] rows differ
    unfolding count by simp
qed

subsection \<open>The mapping of rows to metric results\<close>

lemma map_of_rev_distinct: "distinct (map fst kvs) \<Longrightarrow> map_of (rev kvs) = map_of kvs"
proof (induction kvs)
  case Nil
  then show ?case by simp
next
  case (Cons kv kvs)
  obtain k v where kv: "kv = (k, v)" by (cases kv)
  from Cons.prems kv have fresh: "map_of kvs k = None"
    by (simp add: map_of_eq_None_iff)
  from Cons have "map_of (rev kvs) = map_of kvs" by simp
  then show ?case
    using fresh by (auto simp: kv map_add_def fun_eq_iff split: option.splits)
qed

lemma map_of_fold_update:
  "map_of (fold (\<lambda>(k, v) d. AList.update k v d) kvs d) = map_of d ++ map_of (rev kvs)"
proof (induction kvs arbitrary: d)
  case Nil
  then show ?case by simp
next
  case (Cons kv kvs)
  obtain k v where kv: "kv = (k, v)" by (cases kv)
  show ?case
    by (auto simp: kv Cons.IH update_conv' map_add_def fun_eq_iff split: option.splits)
qed

lemma map_of_dict_of: "distinct (map fst kvs) \<Longrightarrow> map_of (dict_of kvs) = map_of kvs"
  by (simp add: dict_of_def map_of_fold_update map_of_rev_distinct)

lemma zip_take_keys: "zip ks row = zip ks (take (length ks) row)"
proof (induction ks arbitrary: row)
  case Nil
  then show ?case by simp
next
  case (Cons k ks)
  then show ?case by (cases row) simp_all
qed

lemma dict_of_zip_nth:
  assumes "distinct ks" and "length ks \<le> length row" and "i < length ks"
  shows "map_of (dict_of (zip ks row)) (ks ! i) = Some (row ! i)"
proof -
  let ?cells = "take (length ks) row"
  from assms have len: "length ks = length ?cells" by simp
  have same: "zip ks row = zip ks ?cells"
    by (rule zip_take_keys)
  from assms len have "distinct (map fst (zip ks ?cells))" by simp
  then have "map_of (dict_of (zip ks ?cells)) = map_of (zip ks ?cells)"
    by (rule map_of_dict_of)
  moreover from assms len have "map_of (zip ks ?cells) (ks ! i) = Some (?cells ! i)"
    by (intro map_of_zip_nth) simp_all
  ultimately show ?thesis using assms same by simp
qed

lemma labels_dict_ok:
  assumes "\<forall>l\<in>set ls. map_of vs l \<noteq> None"
  shows "\<exists>d. labels_dict vs ls acc = Inr d
           \<and> fst ` set d = fst ` set acc \<union> set ls
           \<and> (distinct (map fst acc) \<longrightarrow> distinct (map fst d))
           \<and> (\<forall>l. map_of d l = (if l \<in> set ls then map_of vs l else map_of acc l))"
  using assms
proof (induction ls arbitrary: acc)
  case Nil
  then show ?case by simp
next
  case (Cons l ls)
  from Cons.prems obtain v where v: "map_of vs l = Some v" by auto
  from Cons.prems have "\<forall>l\<in>set ls. map_of vs l \<noteq> None" by simp
  from Cons.IH [OF this, of "AList.update l v acc"]
  obtain d where d: "labels_dict vs ls (AList.update l v acc) = Inr d"
    and keys: "fst ` set d = fst ` set (AList.update l v acc) \<union> set ls"
    and dist: "distinct (map fst (AList.update l v acc)) \<longrightarrow> distinct (map fst d)"
    and look: "\<forall>x. map_of d x =
                 (if x \<in> set ls then map_of vs x else map_of (AList.update l v acc) x)"
    by blast
  have "labels_dict vs (l # ls) acc = Inr d"
    by (simp add: subscript_def v d)
  moreover have "fst ` set d = fst ` set acc \<union> set (l # ls)"
    using keys by (auto simp: dom_update)
  moreover have "distinct (map fst acc) \<longrightarrow> distinct (map fst d)"
    using dist by (simp add: distinct_update)
  moreover have "\<forall>x. map_of d x = (if x \<in> set (l # ls) then map_of vs x else map_of acc x)"
    using look v by (auto simp: update_conv')
  ultimately show ?case by blast
qed


lemma metrics_loop_ok:
  assumes "\<forall>m\<in>set ms. map_of vs (metric_name m) \<noteq> None
             \<and> (\<forall>l\<in>set (metric_labels m). map_of vs l \<noteq> None)"
  shows "\<exists>rs. metrics_loop vs ms acc = Inr (acc @ rs)
           \<and> list_all2 (\<lambda>m r. mr_metric r = metric_name m
                 \<and> map_of vs (metric_name m) = Some (mr_value r)
                 \<and> fst ` set (mr_labels r) = set (metric_labels m)
                 \<and> distinct (map fst (mr_labels r))
                 \<and> (\<forall>l\<in>set (metric_labels m). map_of (mr_labels r) l = map_of vs l)) ms rs"
  using assms
proof (induction ms arbitrary: acc)
  case Nil
  then show ?case by simp
next
  case (Cons m ms)
  from Cons.prems obtain v where v: "map_of vs (metric_name m) = Some v" by auto
  from Cons.prems have "\<forall>l\<in>set (metric_labels m). map_of vs l \<noteq> None" by simp
  from labels_dict_ok [OF this, of "[]"]
  obtain d where d: "labels_dict vs (metric_labels m) [] = Inr d"
    and keys: "fst ` set d = set (metric_labels m)"
    and dist: "distinct (map fst d)"
    and look: "\<forall>l\<in>set (metric_labels m). map_of d l = map_of vs l"
    by auto
  let ?r = "\<lparr>mr_metric = metric_name m, mr_value = v, mr_labels = d\<rparr>"
  from Cons.prems have "\<forall>m\<in>set ms. map_of vs (metric_name m) \<noteq> None
             \<and> (\<forall>l\<in>set (metric_labels m). map_of vs l \<noteq> None)" by simp
  from Cons.IH [OF this, of "acc @ [?r]"]
  obtain rs where rs: "metrics_loop vs ms (acc @ [?r]) = Inr ((acc @ [?r]) @ rs)"
    and all: "list_all2 (\<lambda>m r. mr_metric r = metric_name m
                 \<and> map_of vs (metric_name m) = Some (mr_value r)
                 \<and> fst ` set (mr_labels r) = set (metric_labels m)
                 \<and> distinct (map fst (mr_labels r))
                 \<and> (\<forall>l\<in>set (metric_labels m). map_of (mr_labels r) l = map_of vs l)) ms rs"
    by blast
  have "metrics_loop vs (m # ms) acc = Inr (acc @ ?r # rs)"
    by (simp add: subscript_def v d rs)
  moreover have "list_all2 (\<lambda>m r. mr_metric r = metric_name m
                 \<and> map_of vs (metric_name m) = Some (mr_value r)
                 \<and> fst ` set (mr_labels r) = set (metric_labels m)
                 \<and> distinct (map fst (mr_labels r))
                 \<and> (\<forall>l\<in>set (metric_labels m). map_of (mr_labels r) l = map_of vs l))
               (m # ms) (?r # rs)"
    using all v keys dist look by simp
  ultimately show ?case by blast
qed

lemma rows_loop_ok:
  assumes "\<forall>row\<in>set rows. \<forall>m\<in>set ms.
             map_of (dict_of (zip ks row)) (metric_name m) \<noteq> None
             \<and> (\<forall>l\<in>set (metric_labels m). map_of (dict_of (zip ks row)) l \<noteq> None)"
  shows "\<exists>rss. rows_loop ks ms rows acc = Inr (acc @ concat rss)
           \<and> list_all2 (\<lambda>row rs.
                 list_all2 (\<lambda>m r. mr_metric r = metric_name m
                   \<and> map_of (dict_of (zip ks row)) (metric_name m) = Some (mr_value r)
                   \<and> fst ` set (mr_labels r) = set (metric_labels m)
                   \<and> distinct (map fst (mr_labels r))
                   \<and> (\<forall>l\<in>set (metric_labels m).
                         map_of (mr_labels r) l = map_of (dict_of (zip ks row)) l)) ms rs)
               rows rss"
  using assms
proof (induction rows arbitrary: acc)
  case Nil
  then show ?case by simp
next
  case (Cons row rows)
  from Cons.prems have "\<forall>m\<in>set ms.
             map_of (dict_of (zip ks row)) (metric_name m) \<noteq> None
             \<and> (\<forall>l\<in>set (metric_labels m). map_of (dict_of (zip ks row)) l \<noteq> None)"
    by simp
  from metrics_loop_ok [OF this, of acc]
  obtain rs where rs: "metrics_loop (dict_of (zip ks row)) ms acc = Inr (acc @ rs)"
    and one: "list_all2 (\<lambda>m r. mr_metric r = metric_name m
                   \<and> map_of (dict_of (zip ks row)) (metric_name m) = Some (mr_value r)
                   \<and> fst ` set (mr_labels r) = set (metric_labels m)
                   \<and> distinct (map fst (mr_labels r))
                   \<and> (\<forall>l\<in>set (metric_labels m).
                         map_of (mr_labels r) l = map_of (dict_of (zip ks row)) l)) ms rs"
    by blast
  from Cons.prems have "\<forall>row\<in>set rows. \<forall>m\<in>set ms.
             map_of (dict_of (zip ks row)) (metric_name m) \<noteq> None
             \<and> (\<forall>l\<in>set (metric_labels m). map_of (dict_of (zip ks row)) l \<noteq> None)"
    by simp
  from Cons.IH [OF this, of "acc @ rs"]
  obtain rss where rss: "rows_loop ks ms rows (acc @ rs) = Inr ((acc @ rs) @ concat rss)"
    and rest: "list_all2 (\<lambda>row rs.
                 list_all2 (\<lambda>m r. mr_metric r = metric_name m
                   \<and> map_of (dict_of (zip ks row)) (metric_name m) = Some (mr_value r)
                   \<and> fst ` set (mr_labels r) = set (metric_labels m)
                   \<and> distinct (map fst (mr_labels r))
                   \<and> (\<forall>l\<in>set (metric_labels m).
                         map_of (mr_labels r) l = map_of (dict_of (zip ks row)) l)) ms rs)
               rows rss"
    by blast
  have "rows_loop ks ms (row # rows) acc = Inr (acc @ concat (rs # rss))"
    by (simp add: rs rss)
  moreover have "list_all2 (\<lambda>row rs.
                 list_all2 (\<lambda>m r. mr_metric r = metric_name m
                   \<and> map_of (dict_of (zip ks row)) (metric_name m) = Some (mr_value r)
                   \<and> fst ` set (mr_labels r) = set (metric_labels m)
                   \<and> distinct (map fst (mr_labels r))
                   \<and> (\<forall>l\<in>set (metric_labels m).
                         map_of (mr_labels r) l = map_of (dict_of (zip ks row)) l)) ms rs)
               (row # rows) (rs # rss)"
    using one rest by simp
  ultimately show ?case by blast
qed

lemma length_concat_uniform:
  "\<forall>xs\<in>set xss. length xs = n \<Longrightarrow> length (concat xss) = length xss * n"
  by (induction xss) simp_all

lemma nth_concat_uniform:
  "\<forall>xs\<in>set xss. length xs = n \<Longrightarrow> i < length xss \<Longrightarrow> j < n
     \<Longrightarrow> concat xss ! (i * n + j) = xss ! i ! j"
proof (induction xss arbitrary: i)
  case Nil
  then show ?case by simp
next
  case (Cons xs xss)
  show ?case
  proof (cases i)
    case 0
    with Cons.prems show ?thesis by (simp add: nth_append)
  next
    case (Suc i')
    with Cons.prems have "concat xss ! (i' * n + j) = xss ! i' ! j"
      by (intro Cons.IH) simp_all
    with Cons.prems Suc show ?thesis by (simp add: nth_append add.assoc)
  qed
qed

lemma shape_checks_keys:
  assumes "sort (qr_keys qr) = expected_keys q"
  shows "distinct (qr_keys qr)"
    and "set (qr_keys qr) = set (map metric_name (metrics q)) \<union> labels q"
proof -
  have "distinct (sort (qr_keys qr))"
    unfolding assms by (simp add: expected_keys_def sorted_of_set_def)
  then show "distinct (qr_keys qr)" by simp
  have "set (sort (qr_keys qr)) = set (map metric_name (metrics q)) \<union> labels q"
    unfolding assms by (simp add: expected_keys_def sorted_of_set_def labels_def)
  then show "set (qr_keys qr) = set (map metric_name (metrics q)) \<union> labels q" by simp
qed

text \<open>
  C4. Take a result set with rows whose columns pass both shape checks, each row holding a
  cell for every column (the rows of a result set are aligned to its keys). Then \<open>results\<close>
  returns, with the latency of the result set, a list with one entry per row and declared
  metric, the entries of a row together and in the order of the metrics: for \<open>N\<close> metrics
  the entry of row \<open>i\<close> and metric \<open>j\<close> is at position \<open>i * N + j\<close>. That entry carries
  the name of the metric; its value is the cell of the row at the position where the keys,
  in their original order, have the name of the metric; its labels are a dict whose keys are
  exactly the label names of that metric, each mapped to the cell of the row at the position
  where the keys have that label.
\<close>

theorem results_per_row_and_metric:
  assumes rows: "qr_rows qr \<noteq> []"
    and aligned: "\<forall>row\<in>set (qr_rows qr). length (qr_keys qr) \<le> length row"
    and count: "length (expected_keys q) = length (qr_keys qr)"
    and names: "sort (qr_keys qr) = expected_keys q"
  shows "\<exists>rs. results q qr = Inr \<lparr>results_of = rs, latency_of = qr_latency qr\<rparr>
           \<and> length rs = length (qr_rows qr) * length (metrics q)
           \<and> (\<forall>i<length (qr_rows qr). \<forall>j<length (metrics q).
                 mr_metric (rs ! (i * length (metrics q) + j)) = metric_name (metrics q ! j)
                 \<and> (\<exists>k<length (qr_keys qr).
                       qr_keys qr ! k = metric_name (metrics q ! j)
                       \<and> mr_value (rs ! (i * length (metrics q) + j)) = qr_rows qr ! i ! k)
                 \<and> distinct (map fst (mr_labels (rs ! (i * length (metrics q) + j))))
                 \<and> fst ` set (mr_labels (rs ! (i * length (metrics q) + j)))
                     = set (metric_labels (metrics q ! j))
                 \<and> (\<forall>l\<in>set (metric_labels (metrics q ! j)).
                       \<exists>k<length (qr_keys qr).
                         qr_keys qr ! k = l
                         \<and> map_of (mr_labels (rs ! (i * length (metrics q) + j))) l
                             = Some (qr_rows qr ! i ! k)))"
proof -
  let ?ks = "qr_keys qr" and ?ms = "metrics q" and ?rows = "qr_rows qr"
  let ?n = "length ?ms"
  from names have dist: "distinct ?ks"
    and cols: "set ?ks = set (map metric_name ?ms) \<union> labels q"
    by (rule shape_checks_keys)+
  have cell: "\<exists>k<length ?ks. ?ks ! k = c \<and> map_of (dict_of (zip ?ks row)) c = Some (row ! k)"
    if "c \<in> set ?ks" and "row \<in> set ?rows" for c row
  proof -
    from that(1) obtain k where k: "k < length ?ks" "?ks ! k = c"
      by (auto simp: in_set_conv_nth)
    from aligned that(2) have "length ?ks \<le> length row" by simp
    from dict_of_zip_nth [OF dist this k(1)] k show ?thesis by auto
  qed
  have name_col: "metric_name m \<in> set ?ks" if "m \<in> set ?ms" for m
    using that cols by simp
  have label_col: "l \<in> set ?ks" if "m \<in> set ?ms" and "l \<in> set (metric_labels m)" for m l
    using that cols by (auto simp: labels_def)
  have "\<forall>row\<in>set ?rows. \<forall>m\<in>set ?ms.
          map_of (dict_of (zip ?ks row)) (metric_name m) \<noteq> None
          \<and> (\<forall>l\<in>set (metric_labels m). map_of (dict_of (zip ?ks row)) l \<noteq> None)"
  proof (intro ballI conjI)
    fix row m assume "row \<in> set ?rows" "m \<in> set ?ms"
    then show "map_of (dict_of (zip ?ks row)) (metric_name m) \<noteq> None"
      using cell [OF name_col] by fastforce
  next
    fix row m l assume "row \<in> set ?rows" "m \<in> set ?ms" "l \<in> set (metric_labels m)"
    then show "map_of (dict_of (zip ?ks row)) l \<noteq> None"
      using cell [OF label_col] by fastforce
  qed
  from rows_loop_ok [OF this, of "[]"]
  obtain rss where loop: "rows_loop ?ks ?ms ?rows [] = Inr (concat rss)"
    and all: "list_all2 (\<lambda>row rs.
                 list_all2 (\<lambda>m r. mr_metric r = metric_name m
                   \<and> map_of (dict_of (zip ?ks row)) (metric_name m) = Some (mr_value r)
                   \<and> fst ` set (mr_labels r) = set (metric_labels m)
                   \<and> distinct (map fst (mr_labels r))
                   \<and> (\<forall>l\<in>set (metric_labels m).
                         map_of (mr_labels r) l = map_of (dict_of (zip ?ks row)) l)) ?ms rs)
               ?rows rss"
    by auto
  from all have len_rss: "length rss = length ?rows"
    by (simp add: list_all2_lengthD)
  have uniform: "\<forall>rs\<in>set rss. length rs = ?n"
  proof
    fix rs assume "rs \<in> set rss"
    then obtain i where i: "i < length rss" "rss ! i = rs"
      by (auto simp: in_set_conv_nth)
    with all len_rss have "list_all2 (\<lambda>m r. mr_metric r = metric_name m
                   \<and> map_of (dict_of (zip ?ks (?rows ! i))) (metric_name m) = Some (mr_value r)
                   \<and> fst ` set (mr_labels r) = set (metric_labels m)
                   \<and> distinct (map fst (mr_labels r))
                   \<and> (\<forall>l\<in>set (metric_labels m).
                         map_of (mr_labels r) l = map_of (dict_of (zip ?ks (?rows ! i))) l))
                ?ms rs"
      by (auto dest: list_all2_nthD2)
    then show "length rs = ?n" by (simp add: list_all2_lengthD)
  qed
  have res: "results q qr = Inr \<lparr>results_of = concat rss, latency_of = qr_latency qr\<rparr>"
    using rows count names by (simp add: results_def Let_def loop)
  have len: "length (concat rss) = length ?rows * ?n"
    using length_concat_uniform [OF uniform] len_rss by simp
  have entry: "mr_metric (concat rss ! (i * ?n + j)) = metric_name (?ms ! j)
                 \<and> (\<exists>k<length ?ks.
                       ?ks ! k = metric_name (?ms ! j)
                       \<and> mr_value (concat rss ! (i * ?n + j)) = ?rows ! i ! k)
                 \<and> distinct (map fst (mr_labels (concat rss ! (i * ?n + j))))
                 \<and> fst ` set (mr_labels (concat rss ! (i * ?n + j)))
                     = set (metric_labels (?ms ! j))
                 \<and> (\<forall>l\<in>set (metric_labels (?ms ! j)).
                       \<exists>k<length ?ks.
                         ?ks ! k = l
                         \<and> map_of (mr_labels (concat rss ! (i * ?n + j))) l
                             = Some (?rows ! i ! k))"
    if i: "i < length ?rows" and j: "j < ?n" for i j
  proof -
    let ?row = "?rows ! i" and ?m = "?ms ! j"
    let ?r = "rss ! i ! j"
    from i j len_rss have at: "concat rss ! (i * ?n + j) = ?r"
      by (intro nth_concat_uniform [OF uniform]) simp_all
    from i have row: "?row \<in> set ?rows" by simp
    from j have m: "?m \<in> set ?ms" by simp
    from all i len_rss have "list_all2 (\<lambda>m r. mr_metric r = metric_name m
                   \<and> map_of (dict_of (zip ?ks ?row)) (metric_name m) = Some (mr_value r)
                   \<and> fst ` set (mr_labels r) = set (metric_labels m)
                   \<and> distinct (map fst (mr_labels r))
                   \<and> (\<forall>l\<in>set (metric_labels m).
                         map_of (mr_labels r) l = map_of (dict_of (zip ?ks ?row)) l))
                ?ms (rss ! i)"
      by (auto dest: list_all2_nthD)
    with j have r: "mr_metric ?r = metric_name ?m"
      "map_of (dict_of (zip ?ks ?row)) (metric_name ?m) = Some (mr_value ?r)"
      "fst ` set (mr_labels ?r) = set (metric_labels ?m)"
      "distinct (map fst (mr_labels ?r))"
      "\<forall>l\<in>set (metric_labels ?m). map_of (mr_labels ?r) l = map_of (dict_of (zip ?ks ?row)) l"
      by (auto dest: list_all2_nthD)
    have "\<exists>k<length ?ks. ?ks ! k = metric_name ?m \<and> mr_value ?r = ?row ! k"
      using cell [OF name_col [OF m] row] r(2) by auto
    moreover have "\<forall>l\<in>set (metric_labels ?m).
                     \<exists>k<length ?ks. ?ks ! k = l \<and> map_of (mr_labels ?r) l = Some (?row ! k)"
    proof
      fix l assume l: "l \<in> set (metric_labels ?m)"
      from cell [OF label_col [OF m l] row] r(5) l
      show "\<exists>k<length ?ks. ?ks ! k = l \<and> map_of (mr_labels ?r) l = Some (?row ! k)"
        by auto
    qed
    ultimately show ?thesis using r(1,3,4) unfolding at by simp
  qed
  show ?thesis
    using res len entry by blast
qed

theorem results_per_row_and_metric_witness:
  "qr_rows \<lparr>qr_keys = [''m1'', ''l1''], qr_rows = [[CInt 42, CStr ''a'']],
             qr_latency = Some (1 / 4 :: real)\<rparr> \<noteq> []
   \<and> length [''m1'', ''l1''] \<le> length [CInt 42, CStr ''a'']
   \<and> length (expected_keys m1_query) = length [''m1'', ''l1'']
   \<and> sort [''m1'', ''l1''] = expected_keys m1_query
   \<and> results m1_query
        \<lparr>qr_keys = [''m1'', ''l1''], qr_rows = [[CInt 42, CStr ''a'']], qr_latency = Some (1 / 4)\<rparr>
      = Inr \<lparr>results_of =
               [\<lparr>mr_metric = ''m1'', mr_value = CInt 42, mr_labels = [(''l1'', CStr ''a'')]\<rparr>],
             latency_of = Some (1 / 4)\<rparr>"
proof -
  let ?qr = "\<lparr>qr_keys = [''m1'', ''l1''], qr_rows = [[CInt 42, CStr ''a'']],
              qr_latency = Some (1 / 4 :: real)\<rparr>"
  have expected: "expected_keys m1_query = [''l1'', ''m1'']"
    by (simp add: expected_keys_def sorted_of_set_def m1_query_def new_query_def)
  have rows: "qr_rows ?qr \<noteq> []" by simp
  have aligned: "\<forall>row\<in>set (qr_rows ?qr). length (qr_keys ?qr) \<le> length row" by simp
  have count: "length (expected_keys m1_query) = length (qr_keys ?qr)"
    by (simp add: expected)
  have names: "sort (qr_keys ?qr) = expected_keys m1_query"
    by (simp add: expected)
  have ms: "metrics m1_query = [\<lparr>metric_name = ''m1'', metric_labels = [''l1'']\<rparr>]"
    by (simp add: m1_query_def new_query_def)
  from results_per_row_and_metric [OF rows aligned count names]
  obtain rs where rs: "results m1_query ?qr = Inr \<lparr>results_of = rs, latency_of = qr_latency ?qr\<rparr>"
    and len: "length rs = length (qr_rows ?qr) * length (metrics m1_query)"
    and every: "\<forall>i<length (qr_rows ?qr). \<forall>j<length (metrics m1_query).
                 mr_metric (rs ! (i * length (metrics m1_query) + j))
                   = metric_name (metrics m1_query ! j)
                 \<and> (\<exists>k<length (qr_keys ?qr).
                       qr_keys ?qr ! k = metric_name (metrics m1_query ! j)
                       \<and> mr_value (rs ! (i * length (metrics m1_query) + j)) = qr_rows ?qr ! i ! k)
                 \<and> distinct (map fst (mr_labels (rs ! (i * length (metrics m1_query) + j))))
                 \<and> fst ` set (mr_labels (rs ! (i * length (metrics m1_query) + j)))
                     = set (metric_labels (metrics m1_query ! j))
                 \<and> (\<forall>l\<in>set (metric_labels (metrics m1_query ! j)).
                       \<exists>k<length (qr_keys ?qr).
                         qr_keys ?qr ! k = l
                         \<and> map_of (mr_labels (rs ! (i * length (metrics m1_query) + j))) l
                             = Some (qr_rows ?qr ! i ! k))"
    by (elim exE conjE)
  from len have len: "length rs = 1" by (simp add: ms)
  note at = every [rule_format, of 0 0]
  have here: "0 < length (qr_rows ?qr)" "0 < length (metrics m1_query)"
    by (simp_all add: ms)
  from at [OF here, THEN conjunct1]
  have m: "mr_metric (rs ! 0) = ''m1''"
    by (simp add: ms)
  from at [OF here, THEN conjunct2, THEN conjunct1]
  obtain k where "k < Suc (Suc 0)" "[''m1'', ''l1''] ! k = ''m1''"
    "mr_value (rs ! 0) = [CInt 42, CStr ''a''] ! k"
    by (auto simp: ms)
  then have v: "mr_value (rs ! 0) = CInt 42"
    by (cases k) auto
  from at [OF here, THEN conjunct2, THEN conjunct2, THEN conjunct1]
  have dist: "distinct (map fst (mr_labels (rs ! 0)))"
    by (simp add: ms)
  from at [OF here, THEN conjunct2, THEN conjunct2, THEN conjunct2, THEN conjunct1]
  have dom: "fst ` set (mr_labels (rs ! 0)) = {''l1''}"
    by (simp add: ms)
  from at [OF here, THEN conjunct2, THEN conjunct2, THEN conjunct2, THEN conjunct2]
  obtain k' where "k' < Suc (Suc 0)" "[''m1'', ''l1''] ! k' = ''l1''"
    "map_of (mr_labels (rs ! 0)) ''l1'' = Some ([CInt 42, CStr ''a''] ! k')"
    by (auto simp: ms)
  then have l: "map_of (mr_labels (rs ! 0)) ''l1'' = Some (CStr ''a'')"
    by (cases k') auto
  have "\<exists>c. mr_labels (rs ! 0) = [(''l1'', c)]"
  proof (cases "mr_labels (rs ! 0)")
    case Nil
    with dom show ?thesis by simp
  next
    case (Cons kv rest)
    with dom have first: "fst kv = ''l1''" by auto
    have "rest = []"
    proof (cases rest)
      case Nil
      then show ?thesis .
    next
      case (Cons kv' rest')
      with dom \<open>mr_labels (rs ! 0) = kv # rest\<close> have "fst kv' = ''l1''" by auto
      with dist first Cons \<open>mr_labels (rs ! 0) = kv # rest\<close> show ?thesis by simp
    qed
    with first Cons show ?thesis by (cases kv) simp
  qed
  then obtain c where "mr_labels (rs ! 0) = [(''l1'', c)]" ..
  with l have ls: "mr_labels (rs ! 0) = [(''l1'', CStr ''a'')]" by simp
  from len obtain r where r: "rs = [r]"
    by (cases rs) auto
  with m v ls have "r = \<lparr>mr_metric = ''m1'', mr_value = CInt 42,
                                 mr_labels = [(''l1'', CStr ''a'')]\<rparr>"
    by simp
  with rs r rows count names show ?thesis by simp
qed

section \<open>Properties of the construction of a Query\<close>

lemma labels_dict_error: "labels_dict vs ls acc = Inl e \<Longrightarrow> \<exists>k. e = KeyError k"
  by (induction ls arbitrary: acc) (auto simp: subscript_def split: option.splits sum.splits)

lemma metrics_loop_error: "metrics_loop vs ms acc = Inl e \<Longrightarrow> \<exists>k. e = KeyError k"
  by (induction ms arbitrary: acc)
     (auto simp: subscript_def split: option.splits sum.splits dest: labels_dict_error)

lemma rows_loop_error: "rows_loop ks ms rows acc = Inl e \<Longrightarrow> \<exists>k. e = KeyError k"
  by (induction rows arbitrary: acc) (auto split: sum.splits dest: metrics_loop_error)

lemma results_not_parameters: "results q qr \<noteq> Inl (InvalidQueryParameters n)"
  by (auto simp: results_def Let_def split: sum.splits dest: rows_loop_error)

lemma connect_not_parameters: "fst (connect eng db) \<noteq> Inl (InvalidQueryParameters n)"
  by (simp add: connect_def Let_def split: sum.splits)

text \<open>
  C5, as stated, fails: \<open>__init__\<close> checks the schedule first, so a query with parameter
  \<open>a\<close> on an SQL text without placeholders, with both an interval of 60 and a schedule,
  raises \<open>InvalidQuerySchedule\<close> and not \<open>InvalidQueryParameters\<close>.
\<close>

theorem schedule_error_precedes_parameters:
  "set (map fst [(''a'', CInt 1)]) \<noteq> set (colon_names ''SELECT 1'')
   \<and> Query_init five_fields colon_names ''q'' (Inr []) [] [] ''SELECT 1''
        (Some [(''a'', CInt 1)]) (None :: (int + real) option) (Some 60) (Some ''* * * * *'')
      = Inl (InvalidQuerySchedule ''q'' ''both interval and schedule specified'')"
  by (simp add: Query_init_def new_query_def check_schedule_def truthy_int_def truthy_str_def
      colon_names_def)

text \<open>
  C5, amended. When the schedule check passes, the construction succeeds if the names of
  the parameters are exactly the placeholders of the SQL text, and raises
  \<open>InvalidQueryParameters\<close> with the name of the query otherwise (a missing \<open>parameters\<close>
  argument counts as no names). The check belongs to the construction alone: neither
  \<open>results\<close> nor \<open>DataBase.execute\<close> ever raises \<open>InvalidQueryParameters\<close>.
\<close>

theorem parameters_checked_at_construction:
  assumes "check_schedule is_valid (new_query n incl excl ms sq params tmo intv sched) = Inr ()"
  shows "Query_init is_valid sql_params n incl excl ms sq params tmo intv sched =
           (if set (map fst (case params of None \<Rightarrow> [] | Some d \<Rightarrow> d)) = set (sql_params sq)
            then Inr (new_query n incl excl ms sq params tmo intv sched)
            else Inl (InvalidQueryParameters n))
         \<and> results q qr \<noteq> Inl (InvalidQueryParameters n')
         \<and> fst (execute eng db) \<noteq> Inl (InvalidQueryParameters n')"
proof -
  have "Query_init is_valid sql_params n incl excl ms sq params tmo intv sched =
           (if set (map fst (case params of None \<Rightarrow> [] | Some d \<Rightarrow> d)) = set (sql_params sq)
            then Inr (new_query n incl excl ms sq params tmo intv sched)
            else Inl (InvalidQueryParameters n))"
    using assms by (simp add: Query_init_def check_query_parameters_def Let_def new_query_def)
  then show ?thesis
    by (simp add: results_not_parameters connect_not_parameters execute_def)
qed

theorem parameters_checked_at_construction_witness:
  "check_schedule five_fields
     (new_query ''q'' (Inr []) [] [] ''SELECT :a'' (Some [(''a'', CInt 1)])
        (None :: (int + real) option) None (Some ''* * * * *'')) = Inr ()
   \<and> Query_init five_fields colon_names ''q'' (Inr []) [] [] ''SELECT :a''
        (Some [(''a'', CInt 1)]) (None :: (int + real) option) None (Some ''* * * * *'')
      = Inr (new_query ''q'' (Inr []) [] [] ''SELECT :a'' (Some [(''a'', CInt 1)])
               None None (Some ''* * * * *''))
   \<and> Query_init five_fields colon_names ''q'' (Inr []) [] [] ''SELECT :a''
        None (None :: (int + real) option) None (Some ''* * * * *'')
      = Inl (InvalidQueryParameters ''q'')"
proof -
  have ok: "check_schedule five_fields
     (new_query ''q'' (Inr []) [] [] ''SELECT :a'' params
        (None :: (int + real) option) None (Some ''* * * * *'')) = Inr ()" for params
    by (simp add: check_schedule_def new_query_def truthy_int_def five_fields_def)
  show ?thesis
    using ok [of "Some [(''a'', CInt 1)]"]
      parameters_checked_at_construction
        [OF ok, of colon_names "Some [(''a'', CInt 1)]", THEN conjunct1]
      parameters_checked_at_construction [OF ok, of colon_names None, THEN conjunct1]
    by (simp add: colon_names_def)
qed

text \<open>
  C6, as stated, fails: the checks test the truth value of \<open>interval\<close> and \<open>schedule\<close>, so
  an empty schedule string counts as no schedule. With an interval of 60 and the empty
  string as schedule, both are given and the string is no cron expression (here under a
  validator that accepts nothing), and the construction succeeds.
\<close>

theorem empty_schedule_accepted:
  "\<not> never_valid []
   \<and> Query_init never_valid colon_names ''q'' (Inr []) [] [] ''SELECT 1''
        None (None :: (int + real) option) (Some 60) (Some [])
      = Inr (new_query ''q'' (Inr []) [] [] ''SELECT 1'' None None (Some 60) (Some []))"
  by (simp add: Query_init_def new_query_def check_schedule_def truthy_int_def truthy_str_def
      colon_names_def never_valid_def check_query_parameters_def)

text \<open>
  C6, amended. If the interval is a number other than 0 and the schedule a non-empty string,
  the construction raises \<open>InvalidQuerySchedule\<close>; if the schedule is a non-empty string
  that is not a valid cron expression, the construction raises \<open>InvalidQuerySchedule\<close>; if
  the schedule is a valid cron string and the interval is absent (or 0), the schedule check
  succeeds.
\<close>

theorem schedule_rejected_at_construction:
  "(intv = Some i \<and> i \<noteq> 0 \<and> sched = Some s \<and> s \<noteq> [] \<longrightarrow>
      Query_init is_valid sql_params n incl excl ms sq params tmo intv sched
        = Inl (InvalidQuerySchedule n ''both interval and schedule specified''))
   \<and> (sched = Some s \<and> s \<noteq> [] \<and> \<not> is_valid s \<longrightarrow>
      (\<exists>message. Query_init is_valid sql_params n incl excl ms sq params tmo intv sched
        = Inl (InvalidQuerySchedule n message)))
   \<and> (sched = Some s \<and> is_valid s \<and> (intv = None \<or> intv = Some 0) \<longrightarrow>
      check_schedule is_valid (new_query n incl excl ms sq params tmo intv sched) = Inr ())"
  by (auto simp: Query_init_def new_query_def check_schedule_def truthy_int_def truthy_str_def
      Let_def split: option.splits)

theorem schedule_rejected_at_construction_witness:
  "Query_init five_fields colon_names ''q'' (Inr []) [] [] ''SELECT 1''
        None (None :: (int + real) option) (Some 60) (Some ''* * * * *'')
      = Inl (InvalidQuerySchedule ''q'' ''both interval and schedule specified'')
   \<and> \<not> five_fields ''hourly''
   \<and> Query_init five_fields colon_names ''q'' (Inr []) [] [] ''SELECT 1''
        None (None :: (int + real) option) None (Some ''hourly'')
      = Inl (InvalidQuerySchedule ''q'' ''invalid schedule format'')
   \<and> five_fields ''* * * * *''
   \<and> check_schedule five_fields
        (new_query ''q'' (Inr []) [] [] ''SELECT 1'' None (None :: (int + real) option)
           None (Some ''* * * * *'')) = Inr ()"
proof -
  have bad: "\<not> five_fields ''hourly''" and good: "five_fields ''* * * * *''"
    by (simp_all add: five_fields_def)
  have both: "Query_init five_fields colon_names ''q'' (Inr []) [] [] ''SELECT 1''
        None (None :: (int + real) option) (Some 60) (Some ''* * * * *'')
      = Inl (InvalidQuerySchedule ''q'' ''both interval and schedule specified'')"
    using schedule_rejected_at_construction
      [of "Some 60" 60 "Some ''* * * * *''" "''* * * * *''" five_fields colon_names
          "''q''" "Inr []" "[]" "[]" "''SELECT 1''" None "None :: (int + real) option"]
    by simp
  from schedule_rejected_at_construction
      [of None 0 "Some ''hourly''" "''hourly''" five_fields colon_names
          "''q''" "Inr []" "[]" "[]" "''SELECT 1''" None "None :: (int + real) option"] bad
  obtain message where m: "Query_init five_fields colon_names ''q'' (Inr []) [] [] ''SELECT 1''
        None (None :: (int + real) option) None (Some ''hourly'')
      = Inl (InvalidQuerySchedule ''q'' message)"
    by auto
  then have invalid: "Query_init five_fields colon_names ''q'' (Inr []) [] [] ''SELECT 1''
        None (None :: (int + real) option) None (Some ''hourly'')
      = Inl (InvalidQuerySchedule ''q'' ''invalid schedule format'')"
    by (simp add: Query_init_def new_query_def check_schedule_def truthy_int_def bad)
  have passes: "check_schedule five_fields
        (new_query ''q'' (Inr []) [] [] ''SELECT 1'' None (None :: (int + real) option)
           None (Some ''* * * * *'')) = Inr ()"
    using schedule_rejected_at_construction
      [of None 0 "Some ''* * * * *''" "''* * * * *''" five_fields colon_names
          "''q''" "Inr []" "[]" "[]" "''SELECT 1''" None "None :: (int + real) option"] good
    by simp
  show ?thesis using bad good both invalid passes by simp
qed

section \<open>Properties of DataBase\<close>

text \<open>
  C7, as stated, fails: when the engine refuses the connection, \<open>connect\<close> raises
  \<open>DataBaseConnectError\<close> and leaves the object disconnected, so the second call asks the
  engine again. On a new object with an engine that always refuses, two calls make two
  attempts.
\<close>

theorem refused_connect_attempted_twice:
  "calls (snd (connect refusing_engine (snd (connect refusing_engine (DataBase_init ''db'')))))
     = [EngineConnect, EngineConnect]"
  by (simp add: connect_def connected_db_def DataBase_init_def refusing_engine_def good_engine_def)

text \<open>
  C7, amended. On a disconnected object whose first \<open>connect\<close> is answered with a
  connection, two calls in a row ask the engine exactly once: the first call returns and
  leaves the object connected, the second call returns and leaves the object untouched, and
  together they add the single call \<open>EngineConnect\<close> to what was asked.
\<close>

theorem second_connect_asks_nothing:
  assumes "\<not> connected_db self" and "engine_connect eng (calls self) = Inr c"
  shows "fst (connect eng self) = Inr ()
         \<and> connected_db (snd (connect eng self))
         \<and> connect eng (snd (connect eng self)) = (Inr (), snd (connect eng self))
         \<and> calls (snd (connect eng (snd (connect eng self)))) = calls self @ [EngineConnect]"
  using assms by (simp add: connect_def connected_db_def Let_def)

theorem second_connect_asks_nothing_witness:
  "\<not> connected_db (DataBase_init ''db'')
   \<and> engine_connect good_engine (calls (DataBase_init ''db'')) = Inr 0
   \<and> calls (snd (connect good_engine (snd (connect good_engine (DataBase_init ''db'')))))
       = [EngineConnect]"
proof -
  have off: "\<not> connected_db (DataBase_init ''db'')"
    by (simp add: connected_db_def DataBase_init_def)
  have answer: "engine_connect good_engine (calls (DataBase_init ''db'')) = Inr 0"
    by (simp add: good_engine_def DataBase_init_def)
  show ?thesis
    using off answer second_connect_asks_nothing [OF off answer]
    by (simp add: DataBase_init_def connect_def connected_db_def good_engine_def)
qed

text \<open>
  C8, as stated, fails: \<open>close\<close> has no cleanup path. When the close of the connection
  raises, the assignments that release the handle are not reached: the exception leaves
  \<open>close\<close> and the object is still connected, with the detached connection attached.
\<close>

theorem failed_close_keeps_handle:
  "connected_db (snd (connect stuck_engine (DataBase_init ''db'')))
   \<and> fst (close stuck_engine (snd (connect stuck_engine (DataBase_init ''db''))))
       = Inl (Raised ''OperationalError'')
   \<and> conn (snd (close stuck_engine (snd (connect stuck_engine (DataBase_init ''db'')))))
       = Some 0
   \<and> calls (snd (close stuck_engine (snd (connect stuck_engine (DataBase_init ''db'')))))
       = [EngineConnect, SyncDetach 0, ConnClose 0]"
  by (simp add: connect_def close_def connected_db_def DataBase_init_def stuck_engine_def
      good_engine_def)

text \<open>
  C8, amended. On a connected object, when detaching and closing the connection both
  return, \<open>close\<close> returns and leaves the object disconnected with the counter of pending
  queries at 0; when one of them raises, \<open>close\<close> raises that exception and leaves the
  connection attached and the counter as it was.
\<close>

theorem close_releases_or_raises:
  assumes "conn self = Some c"
  shows "(sync_detach eng (calls self) c = None
            \<and> conn_close eng (calls self @ [SyncDetach c]) c = None \<longrightarrow>
          fst (close eng self) = Inr ()
            \<and> \<not> connected_db (snd (close eng self))
            \<and> pending_queries (snd (close eng self)) = 0)
         \<and> (sync_detach eng (calls self) c \<noteq> None
            \<or> conn_close eng (calls self @ [SyncDetach c]) c \<noteq> None \<longrightarrow>
          (\<exists>cls. fst (close eng self) = Inl (Raised cls))
            \<and> conn (snd (close eng self)) = Some c
            \<and> pending_queries (snd (close eng self)) = pending_queries self)"
  using assms by (auto simp: close_def connected_db_def Let_def split: option.splits)

theorem close_releases_or_raises_witness:
  "conn (snd (connect good_engine (DataBase_init ''db''))) = Some 0
   \<and> \<not> connected_db (snd (close good_engine (snd (connect good_engine (DataBase_init ''db'')))))
   \<and> pending_queries (snd (close good_engine (snd (connect good_engine (DataBase_init ''db'')))))
       = 0
   \<and> conn (snd (connect stuck_engine (DataBase_init ''db''))) = Some 0
   \<and> conn (snd (close stuck_engine (snd (connect stuck_engine (DataBase_init ''db'')))))
       = Some 0"
proof -
  let ?g = "snd (connect good_engine (DataBase_init ''db''))"
  let ?s = "snd (connect stuck_engine (DataBase_init ''db''))"
  have g: "conn ?g = Some 0"
    by (simp add: connect_def connected_db_def DataBase_init_def good_engine_def)
  have s: "conn ?s = Some 0"
    by (simp add: connect_def connected_db_def DataBase_init_def stuck_engine_def good_engine_def)
  have g_ok: "sync_detach good_engine (calls ?g) 0 = None
              \<and> conn_close good_engine (calls ?g @ [SyncDetach 0]) 0 = None"
    by (simp add: good_engine_def)
  have s_bad: "sync_detach stuck_engine (calls ?s) 0 \<noteq> None
               \<or> conn_close stuck_engine (calls ?s @ [SyncDetach 0]) 0 \<noteq> None"
    by (simp add: stuck_engine_def good_engine_def)
  from close_releases_or_raises [OF g, of good_engine] g_ok
  have "\<not> connected_db (snd (close good_engine ?g)) \<and> pending_queries (snd (close good_engine ?g)) = 0"
    by blast
  moreover from close_releases_or_raises [OF s, of stuck_engine] s_bad
  have "conn (snd (close stuck_engine ?s)) = Some 0"
    by blast
  ultimately show ?thesis using g s by simp
qed

lemma pending_connect: "pending_queries (snd (connect eng self)) = pending_queries self"
  by (simp add: connect_def Let_def split: sum.splits)

lemma pending_close:
  "pending_queries (snd (close eng self)) = pending_queries self
   \<or> pending_queries (snd (close eng self)) = 0"
  by (simp add: close_def Let_def split: option.splits)

lemma pending_step: "pending_queries self = 0 \<Longrightarrow> pending_queries (step eng x self) = 0"
  using pending_close [of eng self] by (cases x) (auto simp: pending_connect execute_def)

lemma pending_fold:
  "pending_queries self = 0 \<Longrightarrow> pending_queries (fold (step eng) ops self) = 0"
  by (induction ops arbitrary: self) (simp_all add: pending_step)

text \<open>
  C9. The counter of pending queries is 0 on a new object; \<open>connect\<close> and \<open>execute\<close>
  leave it as it is, \<open>close\<close> leaves it as it is or sets it to 0; so it is 0 after every
  sequence of calls of \<open>connect\<close>, \<open>close\<close> and \<open>execute\<close> on a new object, whatever the
  engine answers.
\<close>

theorem pending_queries_always_zero:
  "pending_queries (DataBase_init n) = 0
   \<and> pending_queries (snd (connect eng self)) = pending_queries self
   \<and> pending_queries (snd (execute eng self)) = pending_queries self
   \<and> (pending_queries (snd (close eng self)) = pending_queries self
        \<or> pending_queries (snd (close eng self)) = 0)
   \<and> pending_queries (run eng ops (DataBase_init n)) = 0"
proof -
  have "pending_queries (DataBase_init n) = 0"
    by (simp add: DataBase_init_def)
  then show ?thesis
    using pending_close [of eng self]
    by (simp add: pending_connect execute_def run_def pending_fold)
qed

text \<open>
  C10. \<open>execute\<close> does what \<open>connect\<close> does, with the same result and the same object
  afterwards: it asks the engine for a connection or asks nothing, it submits no statement
  to a connection, and it returns nothing.
\<close>

theorem execute_only_connects:
  "execute eng self = connect eng self
   \<and> (calls (snd (execute eng self)) = calls self
        \<or> calls (snd (execute eng self)) = calls self @ [EngineConnect])
   \<and> (ConnExecute c statement \<in> set (calls (snd (execute eng self))))
       = (ConnExecute c statement \<in> set (calls self))"
  by (auto simp: execute_def connect_def Let_def split: sum.splits)

end
